theory Spec2Isabelle
  imports Main "HOL-Library.AList"
begin

section \<open>The environment of the two programs\<close>

text \<open>
  The client (\<^verbatim>\<open>client/client.py\<close>) and the server (\<^verbatim>\<open>server/server.py\<close>) are
  Python scripts that talk to a socket and to the file system. Both are modelled here by
  explicit state passing over a \<open>world\<close>: the file system of the process, the data its
  socket will still deliver, the number of sends the transport will still accept, and the
  trace of the effects performed so far, in order.

  Python's \<open>str\<close> is modelled by \<open>string\<close>; one character is one unit on the wire
  (\<open>encode\<close> and \<open>decode\<close> are the identity, as on ASCII text). A file holds the
  characters stored in it: reading in text mode translates the line ends, writing in
  text mode stores the characters as they are (\<open>os.linesep\<close> is the line feed, as on
  POSIX). The calls to \<open>print\<close> and \<open>dprint\<close> write to the terminal only and are
  left out.

  The socket is a queue of messages: a \<open>send\<close> that succeeds transmits its whole
  argument, and a \<open>recv\<close> takes from the message at the head of the queue, never from
  two messages at once. The server's \<open>main\<close> joins every thread right after starting
  it, so its sessions run one after the other; the model runs them in that order.
\<close>

type_synonym path = string
type_synonym address = "string \<times> nat"

text \<open>
  A directory carries whether the process may create entries in it; a regular file
  carries whether the process may read it, whether it may write it, and its contents.
\<close>

datatype node = Dir bool | File bool bool string

type_synonym filesystem = "(path \<times> node) list"

text \<open>
  The functions of \<open>os.path\<close> and \<open>os.makedirs\<close> belong to the platform: they are
  parameters. Every system call resolves its path argument with \<open>abspath\<close>, so the
  file system is keyed by absolute paths; the empty path names nothing, and every call on
  it fails. \<open>makedirs f d mode\<close> returns whether the call succeeded (it raises
  \<open>OSError\<close> otherwise) and the file system it leaves.
\<close>

record os_env =
  abspath :: "path \<Rightarrow> path"
  dirname :: "path \<Rightarrow> path"
  basename :: "path \<Rightarrow> path"
  makedirs :: "filesystem \<Rightarrow> path \<Rightarrow> nat \<Rightarrow> bool \<times> filesystem"

datatype exn =
  InvalidCommandException | EmptyFileException | ConnectionError | OSError
  | IndexError | KeyError

text \<open>
  A call returns a value, raises, or never returns (\<open>Blocks\<close>: a \<open>recv\<close> on a
  connection that is open and silent).
\<close>

datatype 'a result = Ok 'a | Raise exn | Blocks

text \<open>
  What the socket delivers to successive \<open>recv\<close> calls: a message of the peer (the
  empty message is what \<open>recv\<close> returns at end of stream), or a connection reset.
\<close>

datatype rx = Data string | Reset

datatype event =
  Sent string | Recvd string | MkDirs path nat | OpenR path | OpenW path
  | Wrote path string | ListDir path | Closed

record world =
  fs :: filesystem
  inbox :: "rx list"
  credit :: "nat option"
  trace :: "event list"

definition log_event :: "event \<Rightarrow> world \<Rightarrow> world" where
  "log_event e w = w\<lparr>trace := trace w @ [e]\<rparr>"

text \<open>
  \<open>ConnectionError\<close> is a subclass of \<open>OSError\<close>: an \<open>except OSError\<close> clause
  catches both.
\<close>

definition is_OSError :: "exn \<Rightarrow> bool" where
  "is_OSError e = (e = OSError \<or> e = ConnectionError)"

text \<open>Sequencing: the second call runs when the first has returned.\<close>

definition and_then ::
  "'a result \<times> world \<Rightarrow> ('a \<Rightarrow> world \<Rightarrow> 'b result \<times> world) \<Rightarrow> 'b result \<times> world" where
  "and_then r k =
     (case r of
        (Ok x, w) \<Rightarrow> k x w
      | (Raise e, w) \<Rightarrow> (Raise e, w)
      | (Blocks, w) \<Rightarrow> (Blocks, w))"

text \<open>\<^verbatim>\<open>try: r  except OSError: raise InvalidCommandException\<close>\<close>

definition except_OSError :: "'a result \<times> world \<Rightarrow> 'a result \<times> world" where
  "except_OSError r =
     (case r of
        (Raise e, w) \<Rightarrow>
          (if is_OSError e then (Raise InvalidCommandException, w) else (Raise e, w))
      | (Ok x, w) \<Rightarrow> (Ok x, w)
      | (Blocks, w) \<Rightarrow> (Blocks, w))"

subsection \<open>The socket\<close>

text \<open>
  \<open>send\<close>: the transport accepts \<open>credit\<close> more sends (\<open>None\<close>: any number) and
  raises \<open>ConnectionError\<close> afterwards. A send of the empty string puts nothing on the
  wire; the trace still records the call.
\<close>

definition send :: "string \<Rightarrow> world \<Rightarrow> unit result \<times> world" where
  "send s w =
     (case credit w of
        None \<Rightarrow> (Ok (), log_event (Sent s) w)
      | Some 0 \<Rightarrow> (Raise ConnectionError, w)
      | Some (Suc n) \<Rightarrow> (Ok (), log_event (Sent s) (w\<lparr>credit := Some n\<rparr>)))"

text \<open>
  \<open>recv n\<close> returns at most \<open>n\<close> units of the next message; what is left of it
  stays at the head of the queue.
\<close>

definition recv :: "nat \<Rightarrow> world \<Rightarrow> string result \<times> world" where
  "recv n w =
     (case inbox w of
        [] \<Rightarrow> (Blocks, w)
      | Reset # q \<Rightarrow> (Raise ConnectionError, w\<lparr>inbox := q\<rparr>)
      | Data m # q \<Rightarrow>
          (if length m \<le> n then (Ok m, log_event (Recvd m) (w\<lparr>inbox := q\<rparr>))
           else (Ok (take n m),
                 log_event (Recvd (take n m)) (w\<lparr>inbox := Data (drop n m) # q\<rparr>))))"

subsection \<open>The file system\<close>

definition exists :: "os_env \<Rightarrow> filesystem \<Rightarrow> path \<Rightarrow> bool" where
  "exists E f p = (p \<noteq> [] \<and> map_of f (abspath E p) \<noteq> None)"

text \<open>
  Mode \<open>'r'\<close> is text mode with universal newlines: what is read has a line feed for
  every carriage return followed by a line feed, and for every other carriage return.
\<close>

fun universal_newlines :: "string \<Rightarrow> string" where
  "universal_newlines [] = []"
| "universal_newlines [c] = (if c = CHR 0x0D then [CHR 0x0A] else [c])"
| "universal_newlines (c # d # s) =
     (if c = CHR 0x0D then
        (if d = CHR 0x0A then CHR 0x0A # universal_newlines s
         else CHR 0x0A # universal_newlines (d # s))
      else c # universal_newlines (d # s))"

text \<open>
  \<open>open(path, 'r')\<close> followed by \<open>f.read(4096)\<close> on the fresh handle: the first 4096
  characters of the file as text mode reads it. Opening a directory, a missing file or a
  file without read permission raises \<open>OSError\<close>.
\<close>

definition open_read :: "os_env \<Rightarrow> path \<Rightarrow> world \<Rightarrow> string result \<times> world" where
  "open_read E p w =
     (if p = [] then (Raise OSError, w)
      else
        case map_of (fs w) (abspath E p) of
          Some (File True wr d) \<Rightarrow>
            (Ok (take 4096 (universal_newlines d)), log_event (OpenR (abspath E p)) w)
        | _ \<Rightarrow> (Raise OSError, w))"

text \<open>
  \<open>open(path, 'w')\<close> and \<open>open(path, 'w+')\<close> (\<open>update\<close>): an existing regular file is
  truncated (it must be writable, and readable too for \<open>'w+'\<close>); a missing one is
  created empty when its directory exists and admits new entries. Anything else raises
  \<open>OSError\<close>.
\<close>

definition open_write :: "os_env \<Rightarrow> bool \<Rightarrow> path \<Rightarrow> world \<Rightarrow> unit result \<times> world" where
  "open_write E update p w =
     (let k = abspath E p in
      if p = [] then (Raise OSError, w)
      else
      case map_of (fs w) k of
        Some (Dir c) \<Rightarrow> (Raise OSError, w)
      | Some (File r wr d) \<Rightarrow>
          (if wr \<and> (if update then r else True)
           then (Ok (), log_event (OpenW k) (w\<lparr>fs := AList.update k (File r wr []) (fs w)\<rparr>))
           else (Raise OSError, w))
      | None \<Rightarrow>
          (case map_of (fs w) (abspath E (dirname E k)) of
             Some (Dir True) \<Rightarrow>
               (Ok (), log_event (OpenW k) (w\<lparr>fs := AList.update k (File True True []) (fs w)\<rparr>))
           | _ \<Rightarrow> (Raise OSError, w)))"

text \<open>
  \<open>f.write(data)\<close> on the open handle: the data goes after what the file holds, as it
  is (text mode writes a line feed as \<open>os.linesep\<close>, which is the line feed itself).
\<close>

definition f_write :: "os_env \<Rightarrow> path \<Rightarrow> string \<Rightarrow> world \<Rightarrow> world" where
  "f_write E p data w =
     (let k = abspath E p in
      case map_of (fs w) k of
        Some (File r wr d) \<Rightarrow>
          log_event (Wrote k data) (w\<lparr>fs := AList.update k (File r wr (d @ data)) (fs w)\<rparr>)
      | _ \<Rightarrow> w)"

text \<open>
  The names in a directory: the last components of the paths whose directory it is, in
  the order the file system holds them.
\<close>

definition entries :: "os_env \<Rightarrow> filesystem \<Rightarrow> path \<Rightarrow> string list" where
  "entries E f k =
     map (basename E) (filter (\<lambda>p. p \<noteq> k \<and> abspath E (dirname E p) = k) (map fst f))"

definition curdir :: path where
  "curdir = ''.''"

definition listdir :: "os_env \<Rightarrow> path \<Rightarrow> world \<Rightarrow> string list result \<times> world" where
  "listdir E p w =
     (let k = abspath E p in
      if p = [] then (Raise OSError, w)
      else
        case map_of (fs w) k of
          Some (Dir c) \<Rightarrow> (Ok (entries E (fs w) k), log_event (ListDir k) w)
        | _ \<Rightarrow> (Raise OSError, w))"

text \<open>
  \<open>makedirs(dirs, True)\<close>: the second positional parameter of \<open>os.makedirs\<close> is
  \<open>mode\<close>, so the call passes mode \<open>True\<close>, that is 1.
\<close>

definition call_makedirs :: "os_env \<Rightarrow> path \<Rightarrow> world \<Rightarrow> unit result \<times> world" where
  "call_makedirs E d w =
     (if d = [] then (Raise OSError, w)
      else
        case makedirs E (fs w) d 1 of
          (True, f') \<Rightarrow> (Ok (), log_event (MkDirs d 1) (w\<lparr>fs := f'\<rparr>))
        | (False, f') \<Rightarrow> (Raise OSError, log_event (MkDirs d 1) (w\<lparr>fs := f'\<rparr>)))"

subsection \<open>Strings\<close>

text \<open>\<open>s.split(c)\<close> with a one-character separator: never the empty list.\<close>

fun split :: "char \<Rightarrow> string \<Rightarrow> string list" where
  "split c [] = [[]]"
| "split c (x # xs) =
     (if x = c then [] # split c xs
      else (case split c xs of
              [] \<Rightarrow> [[x]]
            | y # ys \<Rightarrow> (x # y) # ys))"

text \<open>\<open>s.upper()\<close>, on ASCII letters.\<close>

definition upper_char :: "char \<Rightarrow> char" where
  "upper_char c =
     (case map_of (zip ''abcdefghijklmnopqrstuvwxyz'' ''ABCDEFGHIJKLMNOPQRSTUVWXYZ'') c of
        Some u \<Rightarrow> u
      | None \<Rightarrow> c)"

definition upper :: "string \<Rightarrow> string" where
  "upper s = map upper_char s"

text \<open>\<open>sep.join(xs)\<close>\<close>

fun join :: "string \<Rightarrow> string list \<Rightarrow> string" where
  "join sep [] = []"
| "join sep [x] = x"
| "join sep (x # y # ys) = x @ sep @ join sep (y # ys)"

definition valid_headers :: "string list" where
  "valid_headers = [''GET'', ''PUT'', ''LS'']"

definition NUL :: string where
  "NUL = [CHR 0x00]"

section \<open>The server: \<open>handle_client\<close>\<close>

definition esend :: "string \<Rightarrow> world \<Rightarrow> unit result \<times> world" where
  "esend s w = send s w"

definition vprint :: "bool \<Rightarrow> world \<Rightarrow> unit result \<times> world" where
  "vprint is_valid w = esend (if is_valid then ''VALID'' else ''INVALID'') w"

definition get :: "os_env \<Rightarrow> string list \<Rightarrow> world \<Rightarrow> unit result \<times> world" where
  "get E args w =
     (if length args \<noteq> 3 then (Raise InvalidCommandException, w)
      else
        let path = args ! 1 in
        and_then
          (except_OSError
             (if exists E (fs w) path then vprint True w else (Raise OSError, w)))
          (\<lambda>_ w1.
             and_then (open_read E path w1)
               (\<lambda>data w2.
                  if data = [] then
                    and_then (esend NUL w2) (\<lambda>_ w3. (Raise EmptyFileException, w3))
                  else esend data w2)))"

definition put :: "os_env \<Rightarrow> string list \<Rightarrow> world \<Rightarrow> unit result \<times> world" where
  "put E args w =
     (if length args \<noteq> 3 then (Raise InvalidCommandException, w)
      else
        let path = abspath E (args ! 2);
            dirs = dirname E path
        in
        and_then
          (except_OSError
             (and_then
                (if \<not> exists E (fs w) dirs then call_makedirs E dirs w else (Ok (), w))
                (\<lambda>_ w1. vprint True w1)))
          (\<lambda>_ w2.
             and_then (open_write E True path w2)
               (\<lambda>_ w3.
                  and_then (recv 4096 w3)
                    (\<lambda>data w4.
                       (Ok (), if data \<noteq> [] then f_write E path data w4 else w4)))))"

definition ls :: "os_env \<Rightarrow> string list \<Rightarrow> world \<Rightarrow> unit result \<times> world" where
  "ls E args w =
     (if length args < 2 then (Raise IndexError, w)
      else
        let target = args ! 1 in
        if target = ''server'' \<and> length args = 2 then
          and_then (vprint True w)
            (\<lambda>_ w1.
               and_then (listdir E curdir w1)
                 (\<lambda>ls_list w2. esend (join ''\<newline>'' ls_list) w2))
        else (Raise InvalidCommandException, w))"

text \<open>
  The body of the \<open>try\<close> of the main loop, for one received command:
  \<open>locals()[header.lower()]()\<close> calls \<open>get\<close>, \<open>put\<close> or \<open>ls\<close>.
\<close>

definition serve_command :: "os_env \<Rightarrow> string \<Rightarrow> world \<Rightarrow> unit result \<times> world" where
  "serve_command E command w =
     (let args = split CHR '' '' command;
          header = upper (args ! 0)
      in
      if header \<in> set valid_headers then
        (if header = ''GET'' then get E args w
         else if header = ''PUT'' then put E args w
         else ls E args w)
      else (Raise InvalidCommandException, w))"

text \<open>
  One turn of \<open>while True\<close>: what the loop does next, or the exception that leaves
  \<open>handle_client\<close> because no \<open>except\<close> clause of the loop catches it (\<open>vprint(False)\<close>
  runs inside the handler of \<open>InvalidCommandException\<close>, outside the \<open>try\<close>).
\<close>

datatype step = Continue | Break | Escape exn | Hang

definition iteration :: "os_env \<Rightarrow> world \<Rightarrow> step \<times> world" where
  "iteration E w =
     (case recv 1024 w of
        (Blocks, w1) \<Rightarrow> (Hang, w1)
      | (Raise e, w1) \<Rightarrow> (if e = ConnectionError then (Break, w1) else (Escape e, w1))
      | (Ok command, w1) \<Rightarrow>
          (case serve_command E command w1 of
             (Ok u, w2) \<Rightarrow> (Continue, w2)
           | (Blocks, w2) \<Rightarrow> (Hang, w2)
           | (Raise e, w2) \<Rightarrow>
               (if e = ConnectionError then (Break, w2)
                else if e = InvalidCommandException then
                  (case vprint False w2 of
                     (Ok u, w3) \<Rightarrow> (Continue, w3)
                   | (Raise e', w3) \<Rightarrow> (Escape e', w3)
                   | (Blocks, w3) \<Rightarrow> (Hang, w3))
                else if e = EmptyFileException then (Continue, w2)
                else (Escape e, w2))))"

text \<open>
  The loop runs until a turn does not continue. Every turn that continues has taken
  something from the socket, which bounds the number of turns.
\<close>

fun weight :: "rx list \<Rightarrow> nat" where
  "weight [] = 0"
| "weight (Data m # q) = Suc (length m + weight q)"
| "weight (Reset # q) = Suc (weight q)"

lemma inbox_log_event [simp]: "inbox (log_event e w) = inbox w"
  by (simp add: log_event_def)

lemma fs_log_event [simp]: "fs (log_event e w) = fs w"
  by (simp add: log_event_def)

lemma credit_log_event [simp]: "credit (log_event e w) = credit w"
  by (simp add: log_event_def)

lemma trace_log_event [simp]: "trace (log_event e w) = trace w @ [e]"
  by (simp add: log_event_def)

lemma inbox_send [simp]: "inbox (snd (send s w)) = inbox w"
  by (simp add: send_def split: option.splits nat.splits)

lemma inbox_vprint [simp]: "inbox (snd (vprint b w)) = inbox w"
  by (simp add: vprint_def esend_def)

lemma inbox_vprint_eq: "vprint b w = (r, w') \<Longrightarrow> inbox w' = inbox w"
  using inbox_vprint [of b w] by simp

lemma inbox_open_read [simp]: "inbox (snd (open_read E p w)) = inbox w"
  by (simp add: open_read_def split: option.splits node.splits bool.splits)

lemma inbox_open_write [simp]: "inbox (snd (open_write E u p w)) = inbox w"
  by (simp add: open_write_def Let_def split: option.splits node.splits bool.splits)

lemma inbox_f_write [simp]: "inbox (f_write E p d w) = inbox w"
  by (simp add: f_write_def Let_def split: option.splits node.splits)

lemma inbox_listdir [simp]: "inbox (snd (listdir E p w)) = inbox w"
  by (simp add: listdir_def Let_def split: option.splits node.splits)

lemma inbox_call_makedirs [simp]: "inbox (snd (call_makedirs E d w)) = inbox w"
  by (simp add: call_makedirs_def split: prod.splits bool.splits)

lemma weight_recv_le: "weight (inbox (snd (recv n w))) \<le> weight (inbox w)"
  by (simp add: recv_def split: list.splits rx.splits)

lemma weight_recv_less:
  "0 < n \<Longrightarrow> recv n w = (Ok m, w') \<Longrightarrow> weight (inbox w') < weight (inbox w)"
  by (auto simp: recv_def split: list.splits rx.splits if_splits)

lemma weight_and_then:
  assumes "weight (inbox (snd r)) \<le> W"
    and "\<And>x w. weight (inbox w) \<le> W \<Longrightarrow> weight (inbox (snd (k x w))) \<le> W"
  shows "weight (inbox (snd (and_then r k))) \<le> W"
  using assms by (cases r) (auto simp: and_then_def split: result.splits)

lemma inbox_except_OSError [simp]: "inbox (snd (except_OSError r)) = inbox (snd r)"
  by (cases r) (auto simp: except_OSError_def split: result.splits)

lemma weight_get: "weight (inbox (snd (get E args w))) \<le> weight (inbox w)"
  unfolding get_def Let_def
  by (auto intro!: weight_and_then simp: esend_def)

lemma weight_put: "weight (inbox (snd (put E args w))) \<le> weight (inbox w)"
  unfolding put_def Let_def
  by (auto intro!: weight_and_then order_trans [OF weight_recv_le] simp: esend_def)

lemma weight_ls: "weight (inbox (snd (ls E args w))) \<le> weight (inbox w)"
  unfolding ls_def Let_def
  by (auto intro!: weight_and_then simp: esend_def)

lemma weight_serve_command:
  "weight (inbox (snd (serve_command E command w))) \<le> weight (inbox w)"
  unfolding serve_command_def Let_def
  by (simp add: weight_get weight_put weight_ls)

lemma weight_iteration:
  assumes "fst (iteration E w) = Continue"
  shows "weight (inbox (snd (iteration E w))) < weight (inbox w)"
proof (cases "recv 1024 w")
  case (Pair r w1)
  show ?thesis
  proof (cases r)
    case (Ok command)
    with Pair have less: "weight (inbox w1) < weight (inbox w)"
      using weight_recv_less [of 1024 w command w1] by simp
    have le: "weight (inbox (snd (serve_command E command w1))) \<le> weight (inbox w1)"
      by (rule weight_serve_command)
    obtain r2 w2 where sc: "serve_command E command w1 = (r2, w2)"
      by (cases "serve_command E command w1")
    have "weight (inbox (snd (iteration E w))) \<le> weight (inbox w2)"
      using Pair Ok sc
      by (auto simp: iteration_def dest: inbox_vprint_eq split: result.splits prod.splits)
    with less le sc show ?thesis by simp
  next
    case (Raise e)
    with Pair assms show ?thesis by (simp add: iteration_def split: if_splits)
  next
    case Blocks
    with Pair assms show ?thesis by (simp add: iteration_def)
  qed
qed

function handle_loop :: "os_env \<Rightarrow> world \<Rightarrow> step \<times> world" where
  "handle_loop E w =
     (let r = iteration E w in
      if fst r = Continue then handle_loop E (snd r) else r)"
  by pat_completeness auto
termination
  by (relation "measure (\<lambda>(E, w). weight (inbox w))") (auto simp: weight_iteration)

declare handle_loop.simps [simp del]

lemma handle_loop_leaves: "fst (handle_loop E w) \<noteq> Continue"
proof (induction E w rule: handle_loop.induct)
  case (1 E w)
  show ?case
  proof (cases "fst (iteration E w) = Continue")
    case True
    with 1 show ?thesis by (subst handle_loop.simps) (simp add: Let_def)
  next
    case False
    then show ?thesis by (subst handle_loop.simps) (simp add: Let_def)
  qed
qed

text \<open>
  \<open>handle_client\<close>: the loop, then the three statements after it, which run when the
  loop was left by \<open>break\<close>. \<open>del clients[address]\<close> raises \<open>KeyError\<close> when the
  address is not in the dict. (The loop never ends on \<open>Continue\<close>; the last case is
  there for the \<open>case\<close> to be complete.)
\<close>

datatype thread = Thread address

datatype outcome = Terminated | Hung | Crashed exn

definition handle_client ::
  "os_env \<Rightarrow> address \<Rightarrow> world \<times> (address \<rightharpoonup> thread)
     \<Rightarrow> outcome \<times> world \<times> (address \<rightharpoonup> thread)" where
  "handle_client E address s =
     (case s of (w, clients) \<Rightarrow>
        (case handle_loop E w of
           (Break, w') \<Rightarrow>
             (let w'' = log_event Closed w' in
              case clients address of
                None \<Rightarrow> (Crashed KeyError, w'', clients)
              | Some t \<Rightarrow> (Terminated, w'', clients(address := None)))
         | (Escape e, w') \<Rightarrow> (Crashed e, w', clients)
         | (Hang, w') \<Rightarrow> (Hung, w', clients)
         | (Continue, w') \<Rightarrow> (Hung, w', clients)))"

text \<open>
  \<open>main\<close>: the accept loop over the connections that arrive, each with the address of
  its peer, what the peer will send and how many sends the transport takes. The thread
  is entered in \<open>clients\<close>, started and joined, so the next connection is accepted when
  the thread has ended, by returning or by an exception; a thread that hangs is never
  joined. The result lists how the sessions ended.
\<close>

fun main ::
  "os_env \<Rightarrow> (address \<times> rx list \<times> nat option) list \<Rightarrow> filesystem \<times> (address \<rightharpoonup> thread)
     \<Rightarrow> outcome list \<times> filesystem \<times> (address \<rightharpoonup> thread)" where
  "main E [] (f, clients) = ([], f, clients)"
| "main E ((address, q, c) # rest) (f, clients) =
     (case handle_client E address
             (\<lparr>fs = f, inbox = q, credit = c, trace = []\<rparr>,
              clients(address \<mapsto> Thread address)) of
        (out, w, clients') \<Rightarrow>
          (if out = Hung then ([out], fs w, clients')
           else (case main E rest (fs w, clients') of
                   (outs, f', clients'') \<Rightarrow> (out # outs, f', clients''))))"

section \<open>The client\<close>

text \<open>
  \<open>valid_command\<close>: \<open>validator[received]\<close> raises \<open>KeyError\<close> on a reply that is
  neither token.
\<close>

definition valid_command :: "string \<Rightarrow> world \<Rightarrow> bool result \<times> world" where
  "valid_command command w =
     and_then (send command w)
       (\<lambda>_ w1.
          and_then (recv 1024 w1)
            (\<lambda>received w2.
               if received = ''VALID'' then (Ok True, w2)
               else if received = ''INVALID'' then (Ok False, w2)
               else (Raise KeyError, w2)))"

definition client_get :: "os_env \<Rightarrow> string \<Rightarrow> string list \<Rightarrow> world \<Rightarrow> unit result \<times> world" where
  "client_get E command args w =
     (if length args \<noteq> 3 then (Raise InvalidCommandException, w)
      else
        let path = abspath E (args ! 2) in
        and_then
          (except_OSError
             (if \<not> exists E (fs w) (dirname E path)
              then call_makedirs E (dirname E path) w else (Ok (), w)))
          (\<lambda>_ w1.
             and_then (valid_command command w1)
               (\<lambda>is_valid w2.
                  if \<not> is_valid then (Raise InvalidCommandException, w2)
                  else
                    and_then (open_write E False path w2)
                      (\<lambda>_ w3.
                         and_then (recv 4096 w3)
                           (\<lambda>data w4.
                              (Ok (), if data \<noteq> NUL then f_write E path data w4 else w4))))))"

definition client_put :: "os_env \<Rightarrow> string \<Rightarrow> string list \<Rightarrow> world \<Rightarrow> unit result \<times> world" where
  "client_put E command args w =
     (if length args \<noteq> 3 then (Raise InvalidCommandException, w)
      else
        let path = abspath E (args ! 1) in
        if \<not> exists E (fs w) path then (Raise InvalidCommandException, w)
        else
          and_then (valid_command command w)
            (\<lambda>is_valid w1.
               if \<not> is_valid then (Raise InvalidCommandException, w1)
               else and_then (open_read E path w1) (\<lambda>data w2. send data w2)))"

definition client_ls :: "os_env \<Rightarrow> string \<Rightarrow> string list \<Rightarrow> world \<Rightarrow> string result \<times> world" where
  "client_ls E command args w =
     (if length args \<noteq> 2 then (Raise InvalidCommandException, w)
      else
        let target = args ! 1 in
        if target = ''client'' then
          and_then (listdir E curdir w) (\<lambda>names w1. (Ok (join ''\<newline>'' names), w1))
        else if target = ''server'' then
          and_then (valid_command command w)
            (\<lambda>is_valid w1.
               if \<not> is_valid then (Raise InvalidCommandException, w1)
               else recv 4096 w1)
        else (Raise InvalidCommandException, w))"

text \<open>
  The body of the \<open>try\<close> of the client's loop for one command line (\<open>quit\<close> is taken
  before it and never gets here).
\<close>

definition client_command :: "os_env \<Rightarrow> string \<Rightarrow> world \<Rightarrow> unit result \<times> world" where
  "client_command E command w =
     (let args = split CHR '' '' command;
          header = upper (args ! 0)
      in
      if header \<in> set valid_headers then
        (if header = ''GET'' then client_get E command args w
         else if header = ''PUT'' then client_put E command args w
         else and_then (client_ls E command args w) (\<lambda>files w1. (Ok (), w1)))
      else (Raise InvalidCommandException, w))"

section \<open>A concrete platform\<close>

text \<open>
  The theorems below hold for every platform \<open>E\<close>. Where a run is computed on concrete
  data, it is on this one: absolute paths are kept, relative ones are put under the
  working directory, and \<open>makedirs\<close> enters a directory that admits new entries (as
  for a superuser, whom the mode 1 that the code passes does not keep out).
\<close>

definition posix_env :: "path \<Rightarrow> os_env" where
  "posix_env cwd =
     \<lparr>abspath = (\<lambda>p. if p = ''.'' then cwd
                      else if take 1 p = ''/'' then p else cwd @ ''/'' @ p),
      dirname = (\<lambda>p. let d = rev (drop 1 (dropWhile (\<lambda>c. c \<noteq> CHR ''/'') (rev p)))
                      in if d = [] then ''/'' else d),
      basename = (\<lambda>p. rev (takeWhile (\<lambda>c. c \<noteq> CHR ''/'') (rev p))),
      makedirs = (\<lambda>f d mode. (True, AList.update d (Dir True) f))\<rparr>"

text \<open>
  What \<open>os.path\<close> gives on every platform, and what the theorems about whole transfers
  ask of \<open>E\<close>: \<open>abspath\<close> returns a path that is not empty and that it leaves as it is,
  and the directory of an absolute path is not empty.
\<close>

definition path_laws :: "os_env \<Rightarrow> bool" where
  "path_laws E =
     (\<forall>p. abspath E p \<noteq> [] \<and> abspath E (abspath E p) = abspath E p
          \<and> dirname E (abspath E p) \<noteq> [])"


section \<open>Traces and conversations\<close>

text \<open>The events a call has added to the trace.\<close>

definition new_events :: "world \<Rightarrow> world \<Rightarrow> event list" where
  "new_events w w' = drop (length (trace w)) (trace w')"

text \<open>
  What a list of events puts on the wire, in order: the strings sent, without the empty
  ones (a send of the empty string transmits nothing).
\<close>

fun wire :: "event list \<Rightarrow> string list" where
  "wire [] = []"
| "wire (Sent m # es) = (if m = [] then wire es else m # wire es)"
| "wire (e # es) = wire es"

definition reads_only :: "event \<Rightarrow> bool" where
  "reads_only e =
     (case e of Sent m \<Rightarrow> True | Recvd m \<Rightarrow> True | OpenR p \<Rightarrow> True | _ \<Rightarrow> False)"

text \<open>
  \<open>gated key act evs\<close>: no event of the kind \<open>act\<close> stands before the first event of
  the kind \<open>key\<close>.
\<close>

fun gated :: "(event \<Rightarrow> bool) \<Rightarrow> (event \<Rightarrow> bool) \<Rightarrow> event list \<Rightarrow> bool" where
  "gated key act [] = True"
| "gated key act (e # es) = (if key e then True else \<not> act e \<and> gated key act es)"

definition file_access :: "event \<Rightarrow> bool" where
  "file_access e =
     (case e of OpenR p \<Rightarrow> True | OpenW p \<Rightarrow> True | Wrote p d \<Rightarrow> True | _ \<Rightarrow> False)"

definition file_write :: "event \<Rightarrow> bool" where
  "file_write e = (case e of Wrote p d \<Rightarrow> True | _ \<Rightarrow> False)"

definition listing :: "event \<Rightarrow> bool" where
  "listing e = (case e of ListDir p \<Rightarrow> True | _ \<Rightarrow> False)"

definition creation :: "event \<Rightarrow> bool" where
  "creation e = (case e of MkDirs p m \<Rightarrow> True | _ \<Rightarrow> False)"

text \<open>
  The invariant as the specification words it: on the server nothing touches the file
  system before \<open>VALID\<close> is sent, on the client nothing before \<open>VALID\<close> is received.
\<close>

definition nothing_before_VALID_sent :: "event list \<Rightarrow> bool" where
  "nothing_before_VALID_sent evs =
     gated (\<lambda>e. e = Sent ''VALID'') (\<lambda>e. file_access e \<or> listing e \<or> creation e) evs"

definition nothing_before_VALID_received :: "event list \<Rightarrow> bool" where
  "nothing_before_VALID_received evs =
     gated (\<lambda>e. e = Recvd ''VALID'') (\<lambda>e. file_access e \<or> listing e \<or> creation e) evs"

text \<open>What the code keeps of it: files and listings on the server, files on the client.\<close>

definition server_gate :: "event list \<Rightarrow> bool" where
  "server_gate evs = gated (\<lambda>e. e = Sent ''VALID'') (\<lambda>e. file_access e \<or> listing e) evs"

definition client_gate :: "event list \<Rightarrow> bool" where
  "client_gate evs = gated (\<lambda>e. e = Recvd ''VALID'') file_access evs"

definition extends :: "world \<Rightarrow> world \<Rightarrow> bool" where
  "extends w w' = (\<exists>evs. trace w' = trace w @ evs)"

text \<open>The contents of the regular file at a path, if there is one.\<close>

definition content_at :: "os_env \<Rightarrow> world \<Rightarrow> path \<Rightarrow> string option" where
  "content_at E w p =
     (case map_of (fs w) (abspath E p) of
        Some (File r wr d) \<Rightarrow> Some d
      | _ \<Rightarrow> None)"



text \<open>The worlds of the concrete runs: a server in \<open>/srv\<close>, a client in \<open>/home\<close>.\<close>

definition server_world :: "rx list \<Rightarrow> world" where
  "server_world q =
     \<lparr>fs = [(''/srv'', Dir True), (''/srv/a.txt'', File True True ''hello''),
            (''/srv/empty.txt'', File True True []), (''/srv/pub'', Dir True)],
      inbox = q, credit = None, trace = []\<rparr>"

definition client_world :: "rx list \<Rightarrow> world" where
  "client_world q =
     \<lparr>fs = [(''/home'', Dir True), (''/home/a.txt'', File True True ''hello''),
            (''/home/empty.txt'', File True True [])],
      inbox = q, credit = None, trace = []\<rparr>"


section \<open>How the trace grows\<close>

lemmas server_defs =
  iteration_def recv_def serve_command_def upper_def upper_char_def valid_headers_def
  get_def put_def ls_def and_then_def except_OSError_def is_OSError_def vprint_def esend_def
  send_def exists_def open_read_def open_write_def f_write_def listdir_def call_makedirs_def
  log_event_def curdir_def NUL_def

lemmas client_defs =
  client_command_def client_get_def client_put_def client_ls_def valid_command_def

lemmas gate_defs = server_gate_def client_gate_def file_access_def listing_def creation_def

lemma extends_refl [simp]: "extends w w"
  by (simp add: extends_def)

lemma extends_trans: "extends w w1 \<Longrightarrow> extends w1 w2 \<Longrightarrow> extends w w2"
  by (auto simp: extends_def)

lemma extends_log_event: "extends w0 w \<Longrightarrow> extends w0 (log_event e w)"
  by (auto simp: extends_def)

lemma extends_send: "extends w0 w \<Longrightarrow> extends w0 (snd (send s w))"
  by (auto simp: extends_def send_def split: option.splits nat.splits)

lemma extends_esend: "extends w0 w \<Longrightarrow> extends w0 (snd (esend s w))"
  by (simp add: esend_def extends_send)

lemma extends_recv: "extends w0 w \<Longrightarrow> extends w0 (snd (recv n w))"
  by (auto simp: extends_def recv_def split: list.splits rx.splits)

lemma extends_open_read: "extends w0 w \<Longrightarrow> extends w0 (snd (open_read E p w))"
  by (auto simp: extends_def open_read_def split: option.splits node.splits bool.splits)

lemma extends_open_write: "extends w0 w \<Longrightarrow> extends w0 (snd (open_write E u p w))"
  by (auto simp: extends_def open_write_def Let_def split: option.splits node.splits bool.splits)

lemma extends_f_write: "extends w0 w \<Longrightarrow> extends w0 (f_write E p d w)"
  by (auto simp: extends_def f_write_def Let_def split: option.splits node.splits)

lemma extends_listdir: "extends w0 w \<Longrightarrow> extends w0 (snd (listdir E p w))"
  by (auto simp: extends_def listdir_def Let_def split: option.splits node.splits)

lemma extends_and_then:
  assumes "extends w0 (snd r)"
    and "\<And>x w. extends w0 w \<Longrightarrow> extends w0 (snd (k x w))"
  shows "extends w0 (snd (and_then r k))"
  using assms by (cases r) (auto simp: and_then_def split: result.splits)

lemmas extends_intros =
  extends_and_then extends_send extends_esend extends_recv extends_open_read
  extends_open_write extends_f_write extends_listdir extends_log_event

lemma gated_calm: "list_all (\<lambda>e. \<not> A e) evs \<Longrightarrow> gated K A evs"
  by (induction evs) auto

lemma gated_opened:
  "list_all (\<lambda>e. \<not> A e) pre \<Longrightarrow> K k \<Longrightarrow> gated K A (pre @ k # rest)"
  by (induction pre) auto

lemma send_shape:
  "send s w = (Raise ConnectionError, w) \<or>
   (\<exists>w1. send s w = (Ok (), w1) \<and> trace w1 = trace w @ [Sent s])"
  by (auto simp: send_def split: option.splits nat.splits)

lemma vprint_shape:
  "vprint True w = (Raise ConnectionError, w) \<or>
   (\<exists>w1. vprint True w = (Ok (), w1) \<and> trace w1 = trace w @ [Sent ''VALID''])"
  using send_shape [of "''VALID''" w] by (simp add: vprint_def esend_def)

lemma vprint_False_shape:
  "vprint False w = (Raise ConnectionError, w) \<or>
   (\<exists>w1. vprint False w = (Ok (), w1) \<and> trace w1 = trace w @ [Sent ''INVALID''])"
  using send_shape [of "''INVALID''" w] by (simp add: vprint_def esend_def)

lemma new_events_append: "trace w' = trace w @ evs \<Longrightarrow> new_events w w' = evs"
  by (simp add: new_events_def)

lemma new_events_extends:
  "trace w1 = trace w @ pre \<Longrightarrow> extends w1 w2 \<Longrightarrow> \<exists>rest. new_events w w2 = pre @ rest"
  by (auto simp: extends_def new_events_def)

lemma server_gate_opened:
  assumes "trace w1 = trace w @ pre @ [Sent ''VALID'']"
    and "list_all (\<lambda>e. \<not> (file_access e \<or> listing e)) pre"
    and "extends w1 w2"
  shows "server_gate (new_events w w2)"
proof -
  from new_events_extends [OF assms(1,3)] obtain rest
    where "new_events w w2 = (pre @ [Sent ''VALID'']) @ rest" by blast
  then show ?thesis
    using gated_opened [OF assms(2), of "\<lambda>e. e = Sent ''VALID''" "Sent ''VALID''" rest]
    by (simp add: server_gate_def)
qed

lemma get_gate: "server_gate (new_events w (snd (get E args w)))"
proof (cases "length args = 3 \<and> exists E (fs w) (args ! 1)")
  case False
  then have "get E args w = (Raise InvalidCommandException, w)"
    by (auto simp: get_def Let_def and_then_def except_OSError_def is_OSError_def)
  then show ?thesis by (simp add: new_events_def server_gate_def)
next
  case True
  from vprint_shape [of w] show ?thesis
  proof
    assume "vprint True w = (Raise ConnectionError, w)"
    with True have "get E args w = (Raise InvalidCommandException, w)"
      by (simp add: get_def Let_def and_then_def except_OSError_def is_OSError_def)
    then show ?thesis by (simp add: new_events_def server_gate_def)
  next
    assume "\<exists>w1. vprint True w = (Ok (), w1) \<and> trace w1 = trace w @ [Sent ''VALID'']"
    then obtain w1 where v: "vprint True w = (Ok (), w1)"
      and t: "trace w1 = trace w @ [] @ [Sent ''VALID'']" by auto
    let ?rest = "and_then (open_read E (args ! 1) w1)
               (\<lambda>data w2.
                  if data = [] then
                    and_then (esend NUL w2) (\<lambda>_ w3. (Raise EmptyFileException, w3))
                  else esend data w2)"
    have g: "get E args w = ?rest"
      using True v by (simp add: get_def Let_def and_then_def except_OSError_def)
    have "extends w1 (snd ?rest)"
      by (auto intro!: extends_intros)
    from server_gate_opened [OF t _ this] show ?thesis
      by (simp add: g)
  qed
qed


lemma call_makedirs_shape:
  "\<exists>r w1 pre. call_makedirs E d w = (r, w1) \<and> trace w1 = trace w @ pre
      \<and> list_all creation pre"
  by (auto simp: call_makedirs_def creation_def split: prod.splits bool.splits)

lemma preflight_shape:
  "\<exists>r w1 pre. (if c then call_makedirs E d w else (Ok (), w)) = (r, w1)
      \<and> trace w1 = trace w @ pre \<and> list_all creation pre"
  using call_makedirs_shape [of E d w] by auto

lemma creation_no_access: "list_all creation pre \<Longrightarrow> list_all (\<lambda>e. \<not> (file_access e \<or> listing e)) pre"
  by (induction pre) (auto simp: creation_def file_access_def listing_def split: event.splits)

lemma creation_no_file_access: "list_all creation pre \<Longrightarrow> list_all (\<lambda>e. \<not> file_access e) pre"
  by (induction pre) (auto simp: creation_def file_access_def split: event.splits)

lemma server_gate_calm:
  "trace w' = trace w @ pre \<Longrightarrow> list_all creation pre \<Longrightarrow> server_gate (new_events w w')"
  using gated_calm [OF creation_no_access, of pre "\<lambda>e. e = Sent ''VALID''"]
  by (simp add: new_events_def server_gate_def)

lemma put_gate: "server_gate (new_events w (snd (put E args w)))"
proof (cases "length args = 3")
  case False
  then have "put E args w = (Raise InvalidCommandException, w)"
    by (simp add: put_def)
  then show ?thesis by (simp add: new_events_def server_gate_def)
next
  case True
  let ?path = "abspath E (args ! 2)"
  let ?dirs = "dirname E ?path"
  obtain r w1 pre where
    pf: "(if \<not> exists E (fs w) ?dirs then call_makedirs E ?dirs w else (Ok (), w)) = (r, w1)"
    and t1: "trace w1 = trace w @ pre" and pre: "list_all creation pre"
    using preflight_shape [of "\<not> exists E (fs w) ?dirs" E ?dirs w] by blast
  let ?rest = "\<lambda>w2. and_then (open_write E True ?path w2)
               (\<lambda>_ w3.
                  and_then (recv 4096 w3)
                    (\<lambda>data w4.
                       (Ok (), if data \<noteq> [] then f_write E ?path data w4 else w4)))"
  have p: "put E args w = and_then (except_OSError (and_then (r, w1) (\<lambda>_ w1. vprint True w1)))
             (\<lambda>_ w2. ?rest w2)"
    using True pf by (simp add: put_def Let_def)
  show ?thesis
  proof (cases "\<exists>x. r = Ok x")
    case False
    then have "snd (put E args w) = w1"
      unfolding p by (cases r) (auto simp: and_then_def except_OSError_def)
    with t1 pre show ?thesis by (simp add: server_gate_calm)
  next
    case True
    then have v: "and_then (r, w1) (\<lambda>_ w1. vprint True w1) = vprint True w1"
      by (auto simp: and_then_def)
    from vprint_shape [of w1] show ?thesis
    proof
      assume "vprint True w1 = (Raise ConnectionError, w1)"
      then have "snd (put E args w) = w1"
        unfolding p v by (simp add: and_then_def except_OSError_def is_OSError_def)
      with t1 pre show ?thesis by (simp add: server_gate_calm)
    next
      assume "\<exists>w2. vprint True w1 = (Ok (), w2) \<and> trace w2 = trace w1 @ [Sent ''VALID'']"
      then obtain w2 where v2: "vprint True w1 = (Ok (), w2)"
        and t2: "trace w2 = trace w @ pre @ [Sent ''VALID'']" using t1 by auto
      have g: "put E args w = ?rest w2"
        unfolding p v v2 by (simp add: and_then_def except_OSError_def)
      have "extends w2 (snd (?rest w2))"
        by (auto intro!: extends_intros)
      from server_gate_opened [OF t2 creation_no_access [OF pre] this] show ?thesis
        by (simp add: g)
    qed
  qed
qed

lemma ls_gate: "server_gate (new_events w (snd (ls E args w)))"
proof (cases "2 \<le> length args \<and> args ! 1 = ''server'' \<and> length args = 2")
  case False
  then have "snd (ls E args w) = w"
    by (auto simp: ls_def Let_def)
  then show ?thesis by (simp add: new_events_def server_gate_def)
next
  case True
  let ?rest = "\<lambda>w1. and_then (listdir E curdir w1)
                 (\<lambda>ls_list w2. esend (join ''\<newline>'' ls_list) w2)"
  have l: "ls E args w = and_then (vprint True w) (\<lambda>_ w1. ?rest w1)"
    using True by (simp add: ls_def Let_def)
  from vprint_shape [of w] show ?thesis
  proof
    assume "vprint True w = (Raise ConnectionError, w)"
    then have "snd (ls E args w) = w"
      unfolding l by (simp add: and_then_def)
    then show ?thesis by (simp add: new_events_def server_gate_def)
  next
    assume "\<exists>w1. vprint True w = (Ok (), w1) \<and> trace w1 = trace w @ [Sent ''VALID'']"
    then obtain w1 where v: "vprint True w = (Ok (), w1)"
      and t: "trace w1 = trace w @ [] @ [Sent ''VALID'']" by auto
    have g: "ls E args w = ?rest w1"
      unfolding l v by (simp add: and_then_def)
    have "extends w1 (snd (?rest w1))"
      by (auto intro!: extends_intros)
    from server_gate_opened [OF t _ this] show ?thesis
      by (simp add: g)
  qed
qed

lemma serve_command_gate: "server_gate (new_events w (snd (serve_command E command w)))"
  by (simp add: serve_command_def Let_def get_gate put_gate ls_gate)
     (simp add: new_events_def server_gate_def)


lemma snd_except_OSError [simp]: "snd (except_OSError r) = snd r"
  by (cases r) (auto simp: except_OSError_def split: result.splits)

lemma extends_call_makedirs: "extends w0 w \<Longrightarrow> extends w0 (snd (call_makedirs E d w))"
  by (auto simp: extends_def call_makedirs_def split: prod.splits bool.splits)

lemma extends_vprint: "extends w0 w \<Longrightarrow> extends w0 (snd (vprint b w))"
  by (simp add: vprint_def extends_esend)

lemma extends_get: "extends w (snd (get E args w))"
  unfolding get_def Let_def
  by (auto intro!: extends_intros extends_vprint)

lemma extends_put: "extends w (snd (put E args w))"
  unfolding put_def Let_def
  by (auto intro!: extends_intros extends_vprint extends_call_makedirs)

lemma extends_ls: "extends w (snd (ls E args w))"
  unfolding ls_def Let_def
  by (auto intro!: extends_intros extends_vprint)

lemma extends_serve_command: "extends w (snd (serve_command E command w))"
  by (simp add: serve_command_def Let_def extends_get extends_put extends_ls)

lemma gated_snoc: "gated K A evs \<Longrightarrow> \<not> A e \<Longrightarrow> gated K A (evs @ [e])"
  by (induction evs) auto

lemma new_events_trans:
  "extends w w1 \<Longrightarrow> extends w1 w2 \<Longrightarrow> new_events w w2 = new_events w w1 @ new_events w1 w2"
  by (auto simp: extends_def new_events_def)

lemma iteration_gate: "server_gate (new_events w (snd (iteration E w)))"
proof (cases "recv 1024 w")
  case (Pair r w1)
  show ?thesis
  proof (cases r)
    case (Ok command)
    with Pair have t1: "trace w1 = trace w @ [Recvd command]"
      by (auto simp: recv_def split: list.splits rx.splits if_splits)
    then have e1: "extends w w1" and n1: "new_events w w1 = [Recvd command]"
      by (auto simp: extends_def new_events_def)
    obtain r2 w2 where sc: "serve_command E command w1 = (r2, w2)"
      by (cases "serve_command E command w1")
    have e2: "extends w1 w2" and g2: "server_gate (new_events w1 w2)"
      using extends_serve_command [of w1 E command] serve_command_gate [of w1 E command] sc
      by simp_all
    have g: "server_gate (new_events w w2)"
      using g2 new_events_trans [OF e1 e2]
      by (simp add: n1 server_gate_def file_access_def listing_def)
    have "snd (iteration E w) = w2 \<or>
          (\<exists>w3. snd (iteration E w) = w3 \<and> trace w3 = trace w2 @ [Sent ''INVALID''])"
    proof (cases "r2 = Raise InvalidCommandException")
      case True
      have it: "iteration E w =
        (case vprint False w2 of
           (Ok u, w3) \<Rightarrow> (Continue, w3)
         | (Raise e', w3) \<Rightarrow> (Escape e', w3)
         | (Blocks, w3) \<Rightarrow> (Hang, w3))"
        using Pair Ok sc True by (simp add: iteration_def)
      from vprint_False_shape [of w2] show ?thesis
        by (auto simp: it)
    next
      case False
      then have "snd (iteration E w) = w2"
        using Pair Ok sc by (cases r2) (simp_all add: iteration_def)
      then show ?thesis by simp
    qed
    then show ?thesis
    proof
      assume "snd (iteration E w) = w2"
      with g show ?thesis by simp
    next
      assume "\<exists>w3. snd (iteration E w) = w3 \<and> trace w3 = trace w2 @ [Sent ''INVALID'']"
      then obtain w3 where i: "snd (iteration E w) = w3"
        and t3: "trace w3 = trace w2 @ [Sent ''INVALID'']" by blast
      have e: "extends w w2" using e1 e2 by (rule extends_trans)
      have "extends w2 w3" and "new_events w2 w3 = [Sent ''INVALID'']"
        using t3 by (auto simp: extends_def new_events_def)
      with new_events_trans [OF e, of w3]
      have "new_events w w3 = new_events w w2 @ [Sent ''INVALID'']"
        by simp
      with g show ?thesis
        unfolding i server_gate_def
        by (simp add: gated_snoc file_access_def listing_def)
    qed
  next
    case (Raise e)
    with Pair have "trace (snd (iteration E w)) = trace w"
      by (auto simp: iteration_def recv_def split: list.splits rx.splits if_splits)
    then show ?thesis by (simp add: new_events_def server_gate_def)
  next
    case Blocks
    with Pair have "trace (snd (iteration E w)) = trace w"
      by (auto simp: iteration_def recv_def split: list.splits rx.splits if_splits)
    then show ?thesis by (simp add: new_events_def server_gate_def)
  qed
qed


lemma recv_shape:
  "recv n w = (Blocks, w) \<or>
   (\<exists>w1. recv n w = (Raise ConnectionError, w1) \<and> trace w1 = trace w) \<or>
   (\<exists>m w1. recv n w = (Ok m, w1) \<and> trace w1 = trace w @ [Recvd m])"
  by (auto simp: recv_def split: list.splits rx.splits)

lemma valid_command_shape:
  "(\<exists>w2. valid_command c w = (Ok True, w2) \<and> trace w2 = trace w @ [Sent c, Recvd ''VALID''])
   \<or> (\<exists>r w2 evs. valid_command c w = (r, w2) \<and> r \<noteq> Ok True \<and> trace w2 = trace w @ evs
         \<and> list_all (\<lambda>e. \<not> file_access e) evs)"
proof -
  from send_shape [of c w] show ?thesis
  proof
    assume "send c w = (Raise ConnectionError, w)"
    then have "valid_command c w = (Raise ConnectionError, w)"
      by (simp add: valid_command_def and_then_def)
    then show ?thesis by simp
  next
    assume "\<exists>w1. send c w = (Ok (), w1) \<and> trace w1 = trace w @ [Sent c]"
    then obtain w1 where s: "send c w = (Ok (), w1)" and t1: "trace w1 = trace w @ [Sent c]"
      by blast
    let ?k = "\<lambda>received w2.
               if received = ''VALID'' then (Ok True, w2)
               else if received = ''INVALID'' then (Ok False, w2)
               else (Raise KeyError, w2)"
    have v: "valid_command c w = and_then (recv 1024 w1) ?k"
      using s by (simp add: valid_command_def and_then_def)
    from recv_shape [of 1024 w1] consider
      (blocks) "recv 1024 w1 = (Blocks, w1)"
      | (reset) w2 where "recv 1024 w1 = (Raise ConnectionError, w2)" "trace w2 = trace w1"
      | (data) m w2 where "recv 1024 w1 = (Ok m, w2)" "trace w2 = trace w1 @ [Recvd m]"
      by blast
    then show ?thesis
    proof cases
      case blocks
      then have "valid_command c w = (Blocks, w1)" by (simp add: v and_then_def)
      with t1 show ?thesis by (auto simp: file_access_def)
    next
      case reset
      then have "valid_command c w = (Raise ConnectionError, w2)" by (simp add: v and_then_def)
      with t1 reset(2) show ?thesis by (auto simp: file_access_def)
    next
      case data
      then have vc: "valid_command c w = ?k m w2" by (simp add: v and_then_def)
      have t2: "trace w2 = trace w @ [Sent c, Recvd m]" using data(2) t1 by simp
      show ?thesis
      proof (cases "m = ''VALID''")
        case True
        with vc t2 show ?thesis by simp
      next
        case False
        then have "fst (?k m w2) \<noteq> Ok True" "snd (?k m w2) = w2" by auto
        with vc t2 have "\<exists>r. valid_command c w = (r, w2) \<and> r \<noteq> Ok True"
          by (cases "valid_command c w") auto
        with t2 show ?thesis by (auto simp: file_access_def)
      qed
    qed
  qed
qed

lemma client_gate_calm:
  "trace w' = trace w @ pre \<Longrightarrow> list_all (\<lambda>e. \<not> file_access e) pre
     \<Longrightarrow> client_gate (new_events w w')"
  using gated_calm [of file_access pre "\<lambda>e. e = Recvd ''VALID''"]
  by (simp add: new_events_def client_gate_def)

lemma client_gate_opened:
  assumes "trace w1 = trace w @ pre @ [Recvd ''VALID'']"
    and "list_all (\<lambda>e. \<not> file_access e) pre"
    and "extends w1 w2"
  shows "client_gate (new_events w w2)"
proof -
  from new_events_extends [OF assms(1,3)] obtain rest
    where "new_events w w2 = (pre @ [Recvd ''VALID'']) @ rest" by blast
  then show ?thesis
    using gated_opened [OF assms(2), of "\<lambda>e. e = Recvd ''VALID''" "Recvd ''VALID''" rest]
    by (simp add: client_gate_def)
qed

lemma handshake_gate:
  assumes t1: "trace w1 = trace w @ pre"
    and pre: "list_all (\<lambda>e. \<not> file_access e) pre"
    and rest: "\<And>w2. extends w2 (snd (rest w2))"
  shows "client_gate (new_events w (snd (and_then (valid_command c w1)
           (\<lambda>is_valid w2. if \<not> is_valid then (Raise InvalidCommandException, w2)
                           else rest w2))))"
proof -
  from valid_command_shape [of c w1] show ?thesis
  proof
    assume "\<exists>w2. valid_command c w1 = (Ok True, w2)
              \<and> trace w2 = trace w1 @ [Sent c, Recvd ''VALID'']"
    then obtain w2 where v: "valid_command c w1 = (Ok True, w2)"
      and t2: "trace w2 = trace w @ (pre @ [Sent c]) @ [Recvd ''VALID'']"
      using t1 by auto
    have "list_all (\<lambda>e. \<not> file_access e) (pre @ [Sent c])"
      using pre by (simp add: file_access_def)
    from client_gate_opened [OF t2 this rest [of w2]] show ?thesis
      by (simp add: v and_then_def)
  next
    assume "\<exists>r w2 evs. valid_command c w1 = (r, w2) \<and> r \<noteq> Ok True
              \<and> trace w2 = trace w1 @ evs \<and> list_all (\<lambda>e. \<not> file_access e) evs"
    then obtain r w2 evs where v: "valid_command c w1 = (r, w2)" and r: "r \<noteq> Ok True"
      and t2: "trace w2 = trace w @ (pre @ evs)"
      and evs: "list_all (\<lambda>e. \<not> file_access e) evs"
      using t1 by auto
    have "snd (and_then (valid_command c w1)
           (\<lambda>is_valid w2. if \<not> is_valid then (Raise InvalidCommandException, w2)
                           else rest w2)) = w2"
      using r by (cases r) (auto simp: v and_then_def)
    moreover have "list_all (\<lambda>e. \<not> file_access e) (pre @ evs)"
      using pre evs by simp
    ultimately show ?thesis
      using client_gate_calm [OF t2] by simp
  qed
qed

lemma client_get_gate: "client_gate (new_events w (snd (client_get E command args w)))"
proof (cases "length args = 3")
  case False
  then have "client_get E command args w = (Raise InvalidCommandException, w)"
    by (simp add: client_get_def)
  then show ?thesis by (simp add: new_events_def client_gate_def)
next
  case True
  let ?path = "abspath E (args ! 2)"
  obtain r w1 pre where
    pf: "(if \<not> exists E (fs w) (dirname E ?path)
          then call_makedirs E (dirname E ?path) w else (Ok (), w)) = (r, w1)"
    and t1: "trace w1 = trace w @ pre" and pre: "list_all creation pre"
    using preflight_shape [of "\<not> exists E (fs w) (dirname E ?path)" E "dirname E ?path" w]
    by blast
  let ?rest = "\<lambda>w2. and_then (open_write E False ?path w2)
                      (\<lambda>_ w3.
                         and_then (recv 4096 w3)
                           (\<lambda>data w4.
                              (Ok (), if data \<noteq> NUL then f_write E ?path data w4 else w4)))"
  let ?hs = "\<lambda>w1. and_then (valid_command command w1)
               (\<lambda>is_valid w2.
                  if \<not> is_valid then (Raise InvalidCommandException, w2) else ?rest w2)"
  have g: "client_get E command args w = and_then (except_OSError (r, w1)) (\<lambda>_ w1. ?hs w1)"
    using True pf by (simp add: client_get_def Let_def)
  have calm: "list_all (\<lambda>e. \<not> file_access e) pre"
    using pre by (rule creation_no_file_access)
  show ?thesis
  proof (cases "\<exists>x. r = Ok x")
    case False
    then have "snd (client_get E command args w) = w1"
      unfolding g by (cases r) (auto simp: and_then_def except_OSError_def)
    with client_gate_calm [OF t1 calm] show ?thesis by simp
  next
    case True
    then have "client_get E command args w = ?hs w1"
      unfolding g by (auto simp: and_then_def except_OSError_def)
    moreover have "\<And>w2. extends w2 (snd (?rest w2))"
      by (auto intro!: extends_intros)
    ultimately show ?thesis
      using handshake_gate [OF t1 calm, of ?rest command] by simp
  qed
qed

lemma client_put_gate: "client_gate (new_events w (snd (client_put E command args w)))"
proof (cases "length args = 3 \<and> exists E (fs w) (abspath E (args ! 1))")
  case False
  then have "client_put E command args w = (Raise InvalidCommandException, w)"
    by (auto simp: client_put_def Let_def)
  then show ?thesis by (simp add: new_events_def client_gate_def)
next
  case True
  let ?rest = "\<lambda>w1. and_then (open_read E (abspath E (args ! 1)) w1) (\<lambda>data w2. send data w2)"
  have g: "client_put E command args w = and_then (valid_command command w)
            (\<lambda>is_valid w1. if \<not> is_valid then (Raise InvalidCommandException, w1)
                             else ?rest w1)"
    using True by (simp add: client_put_def Let_def del: One_nat_def)
  have "\<And>w2. extends w2 (snd (?rest w2))"
    by (auto intro!: extends_intros)
  then show ?thesis
    using handshake_gate [of w w "[]" ?rest command] by (simp add: g)
qed

lemma client_ls_gate: "client_gate (new_events w (snd (client_ls E command args w)))"
proof (cases "length args = 2 \<and> (args ! 1 = ''client'' \<or> args ! 1 = ''server'')")
  case False
  then have "client_ls E command args w = (Raise InvalidCommandException, w)"
    by (auto simp: client_ls_def Let_def)
  then show ?thesis by (simp add: new_events_def client_gate_def)
next
  case True
  show ?thesis
  proof (cases "args ! 1 = ''client''")
    case client: True
    have "\<exists>pre. trace (snd (client_ls E command args w)) = trace w @ pre
            \<and> list_all (\<lambda>e. \<not> file_access e) pre"
      using True client
      by (auto simp: client_ls_def Let_def listdir_def and_then_def file_access_def
          split: option.splits node.splits)
    then show ?thesis using client_gate_calm by blast
  next
    case False
    with True have g: "client_ls E command args w = and_then (valid_command command w)
            (\<lambda>is_valid w1. if \<not> is_valid then (Raise InvalidCommandException, w1)
                             else recv 4096 w1)"
      by (simp add: client_ls_def Let_def del: One_nat_def)
    have "\<And>w2. extends w2 (snd (recv 4096 w2))"
      by (auto intro!: extends_intros)
    then show ?thesis
      using handshake_gate [of w w "[]" "recv 4096" command] by (simp add: g)
  qed
qed

lemma snd_and_then_return [simp]: "snd (and_then r (\<lambda>x w. (Ok (f x), w))) = snd r"
  by (cases r) (auto simp: and_then_def split: result.splits)

lemma client_command_gate: "client_gate (new_events w (snd (client_command E command w)))"
  by (simp add: client_command_def Let_def client_get_gate client_put_gate client_ls_gate)
     (simp add: new_events_def client_gate_def)

section \<open>The four runs of a round trip\<close>



lemma universal_newlines_Nil [simp]: "universal_newlines s = [] \<longleftrightarrow> s = []"
  by (induction s rule: universal_newlines.induct) auto

lemma path_lawsD:
  "path_laws E \<Longrightarrow> abspath E p \<noteq> []"
  "path_laws E \<Longrightarrow> abspath E (abspath E p) = abspath E p"
  "path_laws E \<Longrightarrow> dirname E (abspath E p) \<noteq> []"
  by (simp_all add: path_laws_def)

lemma path_laws_posix_env: "take 1 cwd = ''/'' \<Longrightarrow> path_laws (posix_env cwd)"
  by (cases cwd) (auto simp: path_laws_def posix_env_def Let_def)

lemma serve_command_GET:
  "split CHR '' '' c = args \<Longrightarrow> upper (args ! 0) = ''GET''
     \<Longrightarrow> serve_command E c w = get E args w"
  by (simp add: serve_command_def Let_def valid_headers_def)


lemma client_command_GET:
  "split CHR '' '' c = args \<Longrightarrow> upper (args ! 0) = ''GET''
     \<Longrightarrow> client_command E c w = client_get E c args w"
  by (simp add: client_command_def Let_def valid_headers_def)


lemmas io_defs =
  recv_def and_then_def except_OSError_def is_OSError_def vprint_def esend_def
  send_def exists_def open_read_def open_write_def f_write_def log_event_def NUL_def








lemma get_frame:
  "fs (snd (get E args w)) = fs w \<and>
   (\<exists>evs. trace (snd (get E args w)) = trace w @ evs \<and> list_all reads_only evs)"
  by (auto simp: server_defs reads_only_def Let_def
      split: option.splits nat.splits node.splits bool.splits)

section \<open>The client's side of a \<open>GET\<close> of an empty file\<close>

lemma open_write_Ok:
  assumes "open_write E u p w = (Ok x, w')"
  shows "\<exists>r wr. w' = log_event (OpenW (abspath E p))
                   (w\<lparr>fs := AList.update (abspath E p) (File r wr []) (fs w)\<rparr>)"
  using assms
  by (auto simp: open_write_def Let_def split: if_splits option.splits node.splits bool.splits)

lemma creation_no_write: "list_all creation pre \<Longrightarrow> \<not> list_ex file_write pre"
  by (induction pre) (auto simp: creation_def file_write_def split: event.splits)

lemma client_get_of_empty_file:
  assumes cmd: "split CHR '' '' command = [h, src, dst]" "upper h = ''GET''"
    and laws: "path_laws EC"
    and client: "credit cw = None" "inbox cw = [Data ''VALID'', Data NUL]"
    and completes: "fst (client_command EC command cw) = Ok ()"
  shows "content_at EC (snd (client_command EC command cw)) dst = Some []
       \<and> \<not> list_ex file_write (new_events cw (snd (client_command EC command cw)))"
proof -
  have cc: "client_command EC command cw = client_get EC command [h, src, dst] cw"
    using client_command_GET [OF cmd(1), of EC cw] cmd(2) by simp
  let ?path = "abspath EC dst"
  let ?dirs = "dirname EC ?path"
  obtain r w1 pre where
    pf: "(if \<not> exists EC (fs cw) ?dirs then call_makedirs EC ?dirs cw else (Ok (), cw)) = (r, w1)"
    and t1: "trace w1 = trace cw @ pre" and pre: "list_all creation pre"
    using preflight_shape [of "\<not> exists EC (fs cw) ?dirs" EC ?dirs cw] by blast
  have i1: "inbox w1 = inbox cw" "credit w1 = credit cw"
    using pf by (auto simp: call_makedirs_def split: if_splits prod.splits bool.splits)
  let ?rest = "\<lambda>w2. and_then (open_write EC False ?path w2)
                      (\<lambda>_ w3.
                         and_then (recv 4096 w3)
                           (\<lambda>data w4.
                              (Ok (), if data \<noteq> NUL then f_write EC ?path data w4 else w4)))"
  let ?hs = "\<lambda>w1. and_then (valid_command command w1)
               (\<lambda>is_valid w2.
                  if \<not> is_valid then (Raise InvalidCommandException, w2) else ?rest w2)"
  have g: "client_get EC command [h, src, dst] cw
           = and_then (except_OSError (r, w1)) (\<lambda>_ w1. ?hs w1)"
    using pf by (simp add: client_get_def Let_def)
  have r: "r = Ok ()"
    using completes unfolding cc g
    by (cases r) (auto simp: and_then_def except_OSError_def split: if_splits)
  define w2 where "w2 = w1\<lparr>inbox := [Data NUL], trace := trace w1 @ [Sent command, Recvd ''VALID'']\<rparr>"
  have v: "valid_command command w1 = (Ok True, w2)"
    using i1 client by (simp add: valid_command_def io_defs w2_def)
  have g2: "client_get EC command [h, src, dst] cw = ?rest w2"
    unfolding g r by (simp add: and_then_def except_OSError_def v)
  obtain r3 w3 where ow: "open_write EC False ?path w2 = (r3, w3)"
    by (cases "open_write EC False ?path w2")
  have r3: "r3 = Ok ()"
    using completes unfolding cc g2 ow by (cases r3) (auto simp: and_then_def)
  from open_write_Ok [OF ow [unfolded r3]] path_lawsD(2) [OF laws, of dst]
  obtain fr fw where w3: "w3 = log_event (OpenW ?path)
                   (w2\<lparr>fs := AList.update ?path (File fr fw []) (fs w2)\<rparr>)"
    by auto
  have fin: "client_get EC command [h, src, dst] cw
             = (Ok (), w3\<lparr>inbox := [], trace := trace w3 @ [Recvd NUL]\<rparr>)"
    unfolding g2 ow r3 by (simp add: and_then_def recv_def log_event_def w3 w2_def NUL_def)
  have "content_at EC (snd (client_command EC command cw)) dst = Some []"
    unfolding cc fin by (simp add: content_at_def w3 update_conv')
  moreover have "new_events cw (snd (client_command EC command cw))
                 = pre @ [Sent command, Recvd ''VALID'', OpenW ?path, Recvd NUL]"
    unfolding cc fin by (simp add: new_events_def w3 w2_def t1)
  ultimately show ?thesis
    using creation_no_write [OF pre] by (simp add: file_write_def)
qed

section \<open>Sessions that end by an exception\<close>

text \<open>
  C2. A command line with the wrong number of arguments is to be answered \<open>INVALID\<close>,
  with the session back at awaiting the next command. \<open>get\<close> and \<open>put\<close> test
  \<open>len(args)\<close> before they index \<open>args\<close>; \<open>ls\<close> reads \<open>args[1]\<close> first. On the
  line \<open>LS\<close> (no argument) that is an \<open>IndexError\<close>, which no \<open>except\<close> clause of
  the loop catches: nothing is sent, the connection is not closed, the entry stays in
  \<open>clients\<close>.
\<close>

theorem bare_LS_raises_IndexError:
  "handle_client E address
     (\<lparr>fs = f, inbox = Data ''LS'' # q, credit = c, trace = t\<rparr>, clients)
   = (Crashed IndexError,
      \<lparr>fs = f, inbox = q, credit = c, trace = t @ [Recvd ''LS'']\<rparr>, clients)"
  by (simp add: handle_client_def handle_loop.simps server_defs)

text \<open>
  The other arity errors are answered as the specification says: \<open>GET\<close> and \<open>PUT\<close>
  with a number of arguments other than two, and \<open>LS\<close> with more than one, get
  \<open>INVALID\<close>, touch nothing and leave the session awaiting the next command.
\<close>

lemma other_arity_errors_are_rejected:
  assumes "inbox w = Data command # q" "length command \<le> 1024" "credit w = None"
    and "upper (split CHR '' '' command ! 0) \<in> {''GET'', ''PUT''}
           \<and> length (split CHR '' '' command) \<noteq> 3
         \<or> upper (split CHR '' '' command ! 0) = ''LS''
           \<and> 2 < length (split CHR '' '' command)"
  shows "iteration E w
         = (Continue, w\<lparr>inbox := q, trace := trace w @ [Recvd command, Sent ''INVALID'']\<rparr>)"
proof -
  have "serve_command E command w1 = (Raise InvalidCommandException, w1)" for w1
    using assms(4)
    by (auto simp: serve_command_def Let_def valid_headers_def get_def put_def ls_def)
  then show ?thesis
    using assms(1-3)
    by (simp add: iteration_def recv_def vprint_def esend_def send_def log_event_def)
qed

text \<open>
  C3. \<open>get\<close> replies \<open>VALID\<close> as soon as the path exists; whether it can be read is
  found out by \<open>open\<close>, after the reply and outside every \<open>try\<close>. For a file without
  read permission the server has sent \<open>VALID\<close> when \<open>open\<close> raises, and the
  exception leaves \<open>handle_client\<close>.
\<close>

theorem get_accepts_unreadable_file:
  "get E [h, c # p, x]
     \<lparr>fs = (abspath E (c # p), File False wr d) # f, inbox = q, credit = None, trace = t\<rparr>
   = (Raise OSError,
      \<lparr>fs = (abspath E (c # p), File False wr d) # f, inbox = q, credit = None,
        trace = t @ [Sent ''VALID'']\<rparr>)
   \<and> handle_client (posix_env ''/srv'') a
       (\<lparr>fs = [(''/srv'', Dir True), (''/srv/secret'', File False True ''x'')],
         inbox = [Data ''GET secret out''], credit = None, trace = []\<rparr>,
        [a \<mapsto> Thread a])
     = (Crashed OSError,
        \<lparr>fs = [(''/srv'', Dir True), (''/srv/secret'', File False True ''x'')],
          inbox = [], credit = None,
          trace = [Recvd ''GET secret out'', Sent ''VALID'']\<rparr>,
        [a \<mapsto> Thread a])"
  by (simp add: handle_client_def handle_loop.simps server_defs posix_env_def)

text \<open>
  A connection reset while the session awaits a command does end it as the
  specification says: the connection is closed and the entry leaves \<open>clients\<close>.
\<close>

lemma reset_terminates_session:
  "handle_client E a
     (\<lparr>fs = f, inbox = Reset # q, credit = c, trace = t\<rparr>, [a \<mapsto> Thread a])
   = (Terminated, \<lparr>fs = f, inbox = q, credit = c, trace = t @ [Closed]\<rparr>, Map.empty)"
  by (simp add: handle_client_def handle_loop.simps server_defs)

lemma end_of_stream_turn:
  "handle_loop E \<lparr>fs = f, inbox = Data [] # q, credit = None, trace = t\<rparr>
   = handle_loop E
       \<lparr>fs = f, inbox = q, credit = None, trace = t @ [Recvd [], Sent ''INVALID'']\<rparr>"
  by (subst handle_loop.simps) (simp add: server_defs)

text \<open>
  C6. At end of stream \<open>recv\<close> returns the empty string and raises nothing. The loop
  takes it for a command with an unknown header and answers \<open>INVALID\<close>: the session is
  not ended, it goes on with whatever the socket gives next (first equation). When that
  answer cannot be sent, the \<open>ConnectionError\<close> is raised inside the handler of
  \<open>InvalidCommandException\<close>, where the \<open>except ConnectionError\<close> clause of the same
  \<open>try\<close> does not reach: the session ends with the connection not closed and its entry
  still in \<open>clients\<close> (second equation).
\<close>

theorem end_of_stream_is_not_a_disconnect:
  "handle_client E a
     (\<lparr>fs = f, inbox = Data [] # q, credit = None, trace = t\<rparr>, clients)
   = handle_client E a
       (\<lparr>fs = f, inbox = q, credit = None, trace = t @ [Recvd [], Sent ''INVALID'']\<rparr>,
        clients)
   \<and> handle_client E a
       (\<lparr>fs = f, inbox = Data [] # q, credit = Some 0, trace = t\<rparr>, [a \<mapsto> Thread a])
     = (Crashed ConnectionError,
        \<lparr>fs = f, inbox = q, credit = Some 0, trace = t @ [Recvd []]\<rparr>, [a \<mapsto> Thread a])"
  by (simp add: handle_client_def end_of_stream_turn)
     (simp add: handle_loop.simps server_defs)

text \<open>
  C7. \<open>main\<close> enters the thread in \<open>clients\<close> before it starts it, and
  \<open>handle_client\<close> deletes the entry after its loop. Those statements are not in a
  \<open>finally\<close>: a session that ends by an exception leaves its entry behind.
\<close>

theorem crashed_session_stays_registered:
  "main E [(a, [Data ''LS''], None)] (f, Map.empty)
   = ([Crashed IndexError], f, [a \<mapsto> Thread a])"
  by (simp add: handle_client_def handle_loop.simps server_defs)

text \<open>A session that a connection reset ends is entered and removed, once each.\<close>

lemma reset_session_is_unregistered:
  "main E [(a, [Reset], None)] (f, Map.empty) = ([Terminated], f, Map.empty)"
  by (simp add: handle_client_def handle_loop.simps server_defs)

section \<open>What the handlers keep\<close>

text \<open>
  C10. Handling a \<open>GET\<close> changes no file on the server: whatever the command line
  (any number of arguments, a missing, an unreadable or an empty file) and whatever the
  transport does, one turn of the loop on a command whose header is \<open>GET\<close> leaves the
  file system as it was, and the only events it adds are receives, sends and opening a
  file for reading.
\<close>

theorem server_get_changes_no_file:
  assumes "recv 1024 w = (Ok command, w1)"
    and "upper (split CHR '' '' command ! 0) = ''GET''"
  shows "fs (snd (iteration E w)) = fs w \<and>
         list_all reads_only (new_events w (snd (iteration E w)))"
proof -
  from assms(1) have w1: "fs w1 = fs w" "trace w1 = trace w @ [Recvd command]"
    by (auto simp: recv_def split: list.splits rx.splits if_splits)
  obtain r w2 where g: "get E (split CHR '' '' command) w1 = (r, w2)"
    by (cases "get E (split CHR '' '' command) w1")
  from get_frame [of E "split CHR '' '' command" w1] g obtain evs where
    w2: "fs w2 = fs w1" "trace w2 = trace w1 @ evs" "list_all reads_only evs"
    by auto
  have sc: "serve_command E command w1 = (r, w2)"
    using assms(2) g by (simp add: serve_command_def Let_def valid_headers_def)
  show ?thesis
    using assms(1) sc w1 w2
    by (cases r)
       (auto simp: iteration_def new_events_def reads_only_def vprint_def esend_def send_def
          split: option.splits nat.splits)
qed

theorem server_get_changes_no_file_witness:
  "recv 1024 (server_world [Data ''get a.txt c.txt''])
     = (Ok ''get a.txt c.txt'', (server_world [])\<lparr>trace := [Recvd ''get a.txt c.txt'']\<rparr>)
   \<and> upper (split CHR '' '' ''get a.txt c.txt'' ! 0) = ''GET''
   \<and> fs (snd (iteration (posix_env ''/srv'') (server_world [Data ''get a.txt c.txt''])))
       = fs (server_world [Data ''get a.txt c.txt''])
   \<and> list_all reads_only
        (new_events (server_world [Data ''get a.txt c.txt''])
           (snd (iteration (posix_env ''/srv'') (server_world [Data ''get a.txt c.txt'']))))"
  using server_get_changes_no_file
    [of "server_world [Data ''get a.txt c.txt'']" "''get a.txt c.txt''"
        "(server_world [])\<lparr>trace := [Recvd ''get a.txt c.txt'']\<rparr>" "posix_env ''/srv''"]
  by (simp add: server_world_def recv_def log_event_def upper_def upper_char_def)

text \<open>
  C9. \<open>put\<close> opens the destination with mode \<open>'w+'\<close>, which empties an existing
  file, and writes what one \<open>recv(4096)\<close> returns. For a destination that is a regular
  file the server may read and write, in its existing directory, with the transport
  taking the \<open>VALID\<close>: afterwards the file holds the received payload and nothing of
  \<open>old\<close>; it is empty when the payload is empty or never arrives.
\<close>

theorem put_truncates_existing_file:
  assumes "path_laws E"
    and "map_of (fs w) (abspath E dst) = Some (File True True old)"
    and "exists E (fs w) (dirname E (abspath E dst))"
    and "credit w \<noteq> Some 0"
  shows "map_of (fs (snd (put E [h, src, dst] w))) (abspath E dst)
         = Some (File True True (case inbox w of Data d # q \<Rightarrow> take 4096 d | _ \<Rightarrow> []))"
  using assms(2-) path_lawsD [OF assms(1), of dst]
  by (auto simp: server_defs Let_def update_conv'
      split: list.splits rx.splits option.splits nat.splits)

theorem put_truncates_existing_file_witness:
  "path_laws (posix_env ''/srv'')
   \<and> map_of (fs (server_world [Data ''bye''])) (abspath (posix_env ''/srv'') ''a.txt'')
     = Some (File True True ''hello'')
   \<and> exists (posix_env ''/srv'') (fs (server_world [Data ''bye'']))
        (dirname (posix_env ''/srv'') (abspath (posix_env ''/srv'') ''a.txt''))
   \<and> map_of (fs (snd (put (posix_env ''/srv'') [''PUT'', ''x.txt'', ''a.txt'']
                         (server_world [Data ''bye'']))))
        (abspath (posix_env ''/srv'') ''a.txt'')
     = Some (File True True ''bye'')"
  using put_truncates_existing_file
    [where E = "posix_env ''/srv''" and dst = "''a.txt''" and w = "server_world [Data ''bye'']"
       and old = "''hello''" and h = "''PUT''" and src = "''x.txt''"]
    path_laws_posix_env [of "''/srv''"]
  by (simp add: server_world_def posix_env_def exists_def)



text \<open>
  C5. A \<open>GET\<close> of a file that exists, can be read and holds nothing: the server
  answers \<open>VALID\<close>, opens the file, sends the single NUL and goes back to awaiting a
  command. The client finds \<open>VALID\<close> and the NUL in its socket. Whenever its handler
  completes, whether it found the destination's directory or made it, the destination is
  a file of length zero and the handler has written nothing, the NUL least of all. It
  does complete when the directory exists and admits entries and the destination is new
  or a writable file.
\<close>

theorem empty_file_get:
  assumes cmd: "split CHR '' '' command = [h, src, dst]" "upper h = ''GET''"
      "length command \<le> 1024"
    and server: "src \<noteq> []" "map_of (fs sw) (abspath ES src) = Some (File True wr [])"
      "credit sw = None" "inbox sw = [Data command]"
    and laws: "path_laws EC"
    and client: "credit cw = None" "inbox cw = [Data ''VALID'', Data NUL]"
  shows "iteration ES sw
         = (Continue, sw\<lparr>inbox := [], trace := trace sw @
              [Recvd command, Sent ''VALID'', OpenR (abspath ES src), Sent NUL]\<rparr>)
       \<and> (fst (client_command EC command cw) = Ok () \<longrightarrow>
            content_at EC (snd (client_command EC command cw)) dst = Some []
            \<and> \<not> list_ex file_write (new_events cw (snd (client_command EC command cw))))
       \<and> (map_of (fs cw) (abspath EC (dirname EC (abspath EC dst))) = Some (Dir True)
            \<and> (case map_of (fs cw) (abspath EC dst) of
                 None \<Rightarrow> True | Some (File r cwr d) \<Rightarrow> cwr | Some (Dir c) \<Rightarrow> False) \<longrightarrow>
            fst (client_command EC command cw) = Ok ())"
proof -
  have sg: "serve_command ES command w = get ES [h, src, dst] w" for w
    using serve_command_GET [OF cmd(1), of ES w] cmd(2) by simp
  have s: "iteration ES sw
         = (Continue, sw\<lparr>inbox := [], trace := trace sw @
              [Recvd command, Sent ''VALID'', OpenR (abspath ES src), Sent NUL]\<rparr>)"
    using cmd(3) server
    by (simp add: iteration_def sg get_def io_defs Let_def)
  have cc: "client_command EC command cw = client_get EC command [h, src, dst] cw"
    using client_command_GET [OF cmd(1), of EC cw] cmd(2) by simp
  have c: "fst (client_command EC command cw) = Ok ()"
    if "map_of (fs cw) (abspath EC (dirname EC (abspath EC dst))) = Some (Dir True)"
      and "case map_of (fs cw) (abspath EC dst) of
             None \<Rightarrow> True | Some (File r cwr d) \<Rightarrow> cwr | Some (Dir c) \<Rightarrow> False"
    unfolding cc using that client path_lawsD [OF laws, of dst]
    by (auto simp: client_get_def valid_command_def io_defs Let_def
        split: option.splits node.splits)
  from s c client_get_of_empty_file [OF cmd(1,2) laws client] show ?thesis
    by blast
qed

theorem empty_file_get_witness:
  "map_of (fs (server_world [Data ''GET empty.txt c.txt'']))
       (abspath (posix_env ''/srv'') ''empty.txt'') = Some (File True True [])
   \<and> wire (new_events (server_world [Data ''GET empty.txt c.txt''])
        (snd (iteration (posix_env ''/srv'') (server_world [Data ''GET empty.txt c.txt'']))))
     = [''VALID'', NUL]
   \<and> fst (client_command (posix_env ''/home'') ''GET empty.txt c.txt''
            (client_world [Data ''VALID'', Data NUL])) = Ok ()
   \<and> content_at (posix_env ''/home'')
        (snd (client_command (posix_env ''/home'') ''GET empty.txt c.txt''
               (client_world [Data ''VALID'', Data NUL]))) ''c.txt'' = Some []
   \<and> \<not> list_ex file_write
         (new_events (client_world [Data ''VALID'', Data NUL])
            (snd (client_command (posix_env ''/home'') ''GET empty.txt c.txt''
                    (client_world [Data ''VALID'', Data NUL]))))"
  using empty_file_get
    [where command = "''GET empty.txt c.txt''" and h = "''GET''" and src = "''empty.txt''"
       and dst = "''c.txt''" and sw = "server_world [Data ''GET empty.txt c.txt'']"
       and ES = "posix_env ''/srv''" and wr = True and EC = "posix_env ''/home''"
       and cw = "client_world [Data ''VALID'', Data NUL]"]
    path_laws_posix_env [of "''/home''"]
  by (simp add: server_world_def client_world_def upper_def upper_char_def posix_env_def
      new_events_def NUL_def)

section \<open>Validation before effects\<close>

text \<open>
  C1, as the specification states it, does not hold: \<open>put\<close> on the server and \<open>get\<close>
  on the client call \<open>makedirs\<close> for a missing destination directory before the reply
  is sent, respectively before the command is even sent, and \<open>LS client\<close> lists the
  client's directory with no handshake. The first two runs below create the directory
  \<open>new\<close> first; the third lists \<open>/home\<close> and nothing else.
\<close>

theorem makedirs_precedes_VALID:
  "new_events (server_world [Data ''PUT a.txt new/b.txt'', Data ''hello''])
     (snd (iteration (posix_env ''/srv'')
             (server_world [Data ''PUT a.txt new/b.txt'', Data ''hello''])))
   = [Recvd ''PUT a.txt new/b.txt'', MkDirs ''/srv/new'' 1, Sent ''VALID'',
      OpenW ''/srv/new/b.txt'', Recvd ''hello'', Wrote ''/srv/new/b.txt'' ''hello'']
   \<and> \<not> nothing_before_VALID_sent
         (new_events (server_world [Data ''PUT a.txt new/b.txt'', Data ''hello''])
            (snd (iteration (posix_env ''/srv'')
                    (server_world [Data ''PUT a.txt new/b.txt'', Data ''hello'']))))
   \<and> new_events (client_world [Data ''VALID'', Data ''hello''])
       (snd (client_command (posix_env ''/home'') ''GET a.txt new/c.txt''
               (client_world [Data ''VALID'', Data ''hello''])))
     = [MkDirs ''/home/new'' 1, Sent ''GET a.txt new/c.txt'', Recvd ''VALID'',
        OpenW ''/home/new/c.txt'', Recvd ''hello'', Wrote ''/home/new/c.txt'' ''hello'']
   \<and> \<not> nothing_before_VALID_received
         (new_events (client_world [Data ''VALID'', Data ''hello''])
            (snd (client_command (posix_env ''/home'') ''GET a.txt new/c.txt''
                    (client_world [Data ''VALID'', Data ''hello'']))))
   \<and> new_events (client_world [])
       (snd (client_command (posix_env ''/home'') ''LS client'' (client_world [])))
     = [ListDir ''/home'']
   \<and> \<not> nothing_before_VALID_received
         (new_events (client_world [])
            (snd (client_command (posix_env ''/home'') ''LS client'' (client_world []))))"
  by (simp add: server_world_def client_world_def posix_env_def new_events_def
      nothing_before_VALID_sent_def nothing_before_VALID_received_def
      file_access_def listing_def creation_def Let_def
      client_defs server_defs)

text \<open>
  C1, amended. What the code does keep, for every command line and every state: on the
  server no file is opened, written or listed in a turn of the loop before \<open>VALID\<close>
  has been sent in that turn; on the client no file is opened or written for a command
  before \<open>VALID\<close> has been received for it. Creating the destination directory is not
  under the gate, and the client's \<open>LS client\<close> lists its own directory with no
  handshake at all.
\<close>

theorem opens_and_listings_follow_VALID:
  "server_gate (new_events sw (snd (iteration ES sw)))
   \<and> client_gate (new_events cw (snd (client_command EC command cw)))"
  by (simp add: iteration_gate client_command_gate)

theorem opens_and_listings_follow_VALID_witness:
  "server_gate [Recvd ''PUT a.txt new/b.txt'', MkDirs ''/srv/new'' 1, Sent ''VALID'',
      OpenW ''/srv/new/b.txt'', Recvd ''hello'', Wrote ''/srv/new/b.txt'' ''hello'']
   \<and> client_gate [MkDirs ''/home/new'' 1, Sent ''GET a.txt new/c.txt'', Recvd ''VALID'',
        OpenW ''/home/new/c.txt'', Recvd ''hello'', Wrote ''/home/new/c.txt'' ''hello'']"
  using opens_and_listings_follow_VALID
    [of "server_world [Data ''PUT a.txt new/b.txt'', Data ''hello'']" "posix_env ''/srv''"
        "client_world [Data ''VALID'', Data ''hello'']" "posix_env ''/home''"
        "''GET a.txt new/c.txt''"]
  by (simp add: server_world_def client_world_def posix_env_def new_events_def Let_def
      client_defs server_defs)

section \<open>Round trip\<close>




text \<open>
  The empty file is outside the amended statement. \<open>get\<close> on the server replaces an
  empty payload by the NUL mark; \<open>put\<close> on the client does not, and sends the empty
  string, which puts nothing on the wire. The server, inside \<open>put\<close>, takes the next
  thing the client sends, its next command line, for the payload.
\<close>

lemma put_of_empty_file_takes_next_command:
  "wire (new_events (client_world [Data ''VALID''])
      (snd (client_command (posix_env ''/home'') ''PUT empty.txt b.txt''
              (client_world [Data ''VALID''])))) = [''PUT empty.txt b.txt'']
   \<and> fst (handle_loop (posix_env ''/srv'')
            (server_world [Data ''PUT empty.txt b.txt''])) = Hang
   \<and> content_at (posix_env ''/srv'')
        (snd (handle_loop (posix_env ''/srv'')
                (server_world [Data ''PUT empty.txt b.txt'', Data ''GET b.txt c.txt''])))
        ''b.txt'' = Some ''GET b.txt c.txt''"
  by (simp add: server_world_def client_world_def posix_env_def new_events_def content_at_def
      Let_def handle_loop.simps client_defs server_defs)

end
